theory Spec2Isabelle
  imports Main "HOL-Library.Char_ord" "HOL-Library.List_Lexorder" "HOL-Library.Multiset"
begin

section \<open>Syntax trees\<close>

text \<open>
  The generator reads Python sources through \<^verbatim>\<open>ast.parse\<close> and looks at three kinds of
  expression node (\<^verbatim>\<open>ast.Name\<close>, \<^verbatim>\<open>ast.Attribute\<close>, \<^verbatim>\<open>ast.Subscript\<close>) and two kinds of
  statement node (\<^verbatim>\<open>ast.ClassDef\<close>, \<^verbatim>\<open>ast.FunctionDef\<close>). Every other expression shape is
  one of the remaining constructors of \<open>expr\<close>. A \<open>node\<close> carries the child nodes that can
  hold statements: expression children never contain a class definition, and leaving them
  out of a breadth-first queue does not change the relative order of the nodes that stay.
  Identifiers and all other strings are byte strings (UTF-8), whose lexicographic order is
  the code-point order Python compares \<^verbatim>\<open>str\<close> values by.
\<close>

datatype expr =
    Name string
  | Attribute expr string
  | Subscript expr expr
  | Call expr "expr list"
  | Constant string
  | OtherExpr

datatype node =
    Module "node list"
  | ClassDef string "expr list" "node list"
  | FunctionDef string "node list"
  | AsyncFunctionDef string "node list"
  | OtherNode "node list"

text \<open>
  Exceptions. A \<open>FileNotFoundError\<close> carries its message; \<open>OSError\<close> carries the name of an
  error number that has no exception class of its own.
\<close>

datatype py_error =
    FileNotFoundError string
  | NotADirectoryError
  | FileExistsError
  | IsADirectoryError
  | PermissionError
  | OSError string
  | SyntaxError
  | ValueError
  | RecursionError

section \<open>Class records\<close>

text \<open>
  \<^verbatim>\<open>ClassInfo\<close> with its two properties. The property \<^verbatim>\<open>alias\<close> is \<open>alias_of\<close> here and the
  function \<^verbatim>\<open>_base_name\<close> is \<open>base_name\<close>: the source's spellings are not names Isabelle
  accepts.
\<close>

record ClassInfo =
  module :: string
  name :: string
  bases :: "string list"
  methods :: "string list"

definition replace_char :: "char \<Rightarrow> char \<Rightarrow> string \<Rightarrow> string" where
  "replace_char old new s = map (\<lambda>ch. if ch = old then new else ch) s"

definition fqname :: "ClassInfo \<Rightarrow> string" where
  "fqname c = (if module c \<noteq> [] then module c @ ''.'' @ name c else name c)"

definition alias_of :: "ClassInfo \<Rightarrow> string" where
  "alias_of c =
     (if module c \<noteq> [] then replace_char (CHR ''.'') (CHR ''_'') (module c @ ''_'' @ name c)
      else name c)"

section \<open>Name resolver\<close>

text \<open>The \<^verbatim>\<open>while\<close> loop of \<^verbatim>\<open>_base_name\<close>: the state is \<open>(cur, parts)\<close>.\<close>

fun attr_chain :: "expr \<Rightarrow> string list \<Rightarrow> string list \<times> expr" where
  "attr_chain (Attribute v a) parts = attr_chain v (parts @ [a])"
| "attr_chain cur parts = (parts, cur)"

fun base_name :: "expr \<Rightarrow> string option" where
  "base_name (Name i) = Some i"
| "base_name (Attribute v a) =
     (let (parts, cur) = attr_chain (Attribute v a) [];
          parts = (case cur of Name i \<Rightarrow> parts @ [i] | _ \<Rightarrow> parts);
          parts = rev parts
      in if parts \<noteq> [] then Some (last parts) else None)"
| "base_name (Subscript v s) = base_name v"
| "base_name _ = None"

section \<open>Class extractor\<close>

fun iter_child_nodes :: "node \<Rightarrow> node list" where
  "iter_child_nodes (Module body) = body"
| "iter_child_nodes (ClassDef n bs body) = body"
| "iter_child_nodes (FunctionDef n body) = body"
| "iter_child_nodes (AsyncFunctionDef n body) = body"
| "iter_child_nodes (OtherNode body) = body"

text \<open>\<^verbatim>\<open>ast.walk\<close>: a queue, the node popped from the front, its children pushed at the back.\<close>

function ast_walk :: "node list \<Rightarrow> node list" where
  "ast_walk [] = []"
| "ast_walk (n # todo) = n # ast_walk (todo @ iter_child_nodes n)"
  by pat_completeness auto
termination
proof (relation "measure (\<lambda>todo. sum_list (map size todo))")
  show "wf (measure (\<lambda>todo. sum_list (map size todo)))" by simp
next
  fix n :: node and todo :: "node list"
  have "sum_list (map size (iter_child_nodes n)) < size n"
    by (cases n) (simp_all add: size_list_conv_sum_list)
  then show "(todo @ iter_child_nodes n, n # todo) \<in> measure (\<lambda>todo. sum_list (map size todo))"
    by simp
qed

text \<open>
  The loop over \<^verbatim>\<open>node.bases\<close>, the list built so far as an accumulator; \<^verbatim>\<open>if name:\<close> rejects
  \<^verbatim>\<open>None\<close> and the empty string.
\<close>

fun collect_bases :: "expr list \<Rightarrow> string list \<Rightarrow> string list" where
  "collect_bases [] acc = acc"
| "collect_bases (b # bs) acc =
     (case base_name b of
        None \<Rightarrow> collect_bases bs acc
      | Some nm \<Rightarrow> if nm \<noteq> [] then collect_bases bs (acc @ [nm]) else collect_bases bs acc)"

text \<open>The loop over \<^verbatim>\<open>node.body\<close>; an \<^verbatim>\<open>AsyncFunctionDef\<close> is not a \<^verbatim>\<open>FunctionDef\<close>.\<close>

fun collect_methods :: "node list \<Rightarrow> string list \<Rightarrow> string list" where
  "collect_methods [] acc = acc"
| "collect_methods (FunctionDef nm body # rest) acc = collect_methods rest (acc @ [nm])"
| "collect_methods (_ # rest) acc = collect_methods rest acc"

definition class_record :: "string \<Rightarrow> string \<Rightarrow> expr list \<Rightarrow> node list \<Rightarrow> ClassInfo" where
  "class_record module_str nm bs body =
     \<lparr>module = module_str, name = nm, bases = collect_bases bs [], methods = collect_methods body []\<rparr>"

fun collect_classes :: "string \<Rightarrow> node list \<Rightarrow> ClassInfo list \<Rightarrow> ClassInfo list" where
  "collect_classes module_str [] acc = acc"
| "collect_classes module_str (ClassDef nm bs body # rest) acc =
     collect_classes module_str rest (acc @ [class_record module_str nm bs body])"
| "collect_classes module_str (_ # rest) acc = collect_classes module_str rest acc"

text \<open>
  A discovered file: its path below the package directory, part by part, and what
  \<^verbatim>\<open>read_text(encoding="utf-8", errors="ignore")\<close> does on it (an error raised, or the text).
\<close>

record source_file =
  rel_parts :: "string list"
  read_text :: "py_error + string"

fun rfind :: "char \<Rightarrow> string \<Rightarrow> nat option" where
  "rfind ch [] = None"
| "rfind ch (x # xs) =
     (case rfind ch xs of
        Some i \<Rightarrow> Some (Suc i)
      | None \<Rightarrow> if x = ch then Some 0 else None)"

text \<open>
  \<^verbatim>\<open>PurePath.with_suffix("")\<close> on the last part: the suffix starts at the last dot, unless
  that dot is the first or the last character of the name.
\<close>

definition strip_suffix :: "string \<Rightarrow> string" where
  "strip_suffix nm =
     (case rfind (CHR ''.'') nm of
        None \<Rightarrow> nm
      | Some i \<Rightarrow> if 0 < i \<and> i < length nm - 1 then take i nm else nm)"

definition with_suffix_empty :: "string list \<Rightarrow> string list" where
  "with_suffix_empty ps = (if ps = [] then [] else butlast ps @ [strip_suffix (last ps)])"

fun join :: "string \<Rightarrow> string list \<Rightarrow> string" where
  "join sep [] = []"
| "join sep [x] = x"
| "join sep (x # y # ys) = x @ sep @ join sep (y # ys)"

definition module_str_of :: "source_file \<Rightarrow> string" where
  "module_str_of py_file = join ''.'' (with_suffix_empty (rel_parts py_file))"

text \<open>
  \<^verbatim>\<open>ast.parse\<close> is Python's own parser; it is a parameter here. The \<^verbatim>\<open>try\<close> block covers the
  read and the parse, and \<^verbatim>\<open>except Exception\<close> turns either failure into the empty list.
\<close>

definition parse_classes :: "(string \<Rightarrow> py_error + node) \<Rightarrow> source_file \<Rightarrow> ClassInfo list" where
  "parse_classes ast_parse py_file =
     (case read_text py_file of
        Inl e \<Rightarrow> []
      | Inr source \<Rightarrow>
          (case ast_parse source of
             Inl e \<Rightarrow> []
           | Inr tree \<Rightarrow> collect_classes (module_str_of py_file) (ast_walk [tree]) []))"

definition all_classes_of :: "(string \<Rightarrow> py_error + node) \<Rightarrow> source_file list \<Rightarrow> ClassInfo list" where
  "all_classes_of ast_parse py_files = foldl (\<lambda>acc f. acc @ parse_classes ast_parse f) [] py_files"

text \<open>
  The interpreter's stack. \<^verbatim>\<open>_base_name\<close> calls itself once for every subscript on the value
  spine of a base expression, and Python raises \<^verbatim>\<open>RecursionError\<close> when a call finds no frame
  left. \<open>base_name_within n\<close> is \<^verbatim>\<open>_base_name\<close> called with \<open>n\<close> frames left; the loops that
  call it pass the error on, as the source has no handler around them. Where these functions
  return, they return what \<open>base_name\<close>, \<open>collect_bases\<close>, \<open>collect_classes\<close>, \<open>parse_classes\<close>
  and \<open>all_classes_of\<close> give (lemma \<open>all_classes_within_cases\<close>); the only error is
  \<^verbatim>\<open>RecursionError\<close>.
\<close>

fun base_name_within :: "nat \<Rightarrow> expr \<Rightarrow> py_error + string option" where
  "base_name_within 0 e = Inl RecursionError"
| "base_name_within (Suc n) (Subscript v s) = base_name_within n v"
| "base_name_within (Suc n) e = Inr (base_name e)"

fun collect_bases_within :: "nat \<Rightarrow> expr list \<Rightarrow> string list \<Rightarrow> py_error + string list" where
  "collect_bases_within n [] acc = Inr acc"
| "collect_bases_within n (b # bs) acc =
     (case base_name_within n b of
        Inl err \<Rightarrow> Inl err
      | Inr None \<Rightarrow> collect_bases_within n bs acc
      | Inr (Some nm) \<Rightarrow>
          if nm \<noteq> [] then collect_bases_within n bs (acc @ [nm]) else collect_bases_within n bs acc)"

fun collect_classes_within ::
  "nat \<Rightarrow> string \<Rightarrow> node list \<Rightarrow> ClassInfo list \<Rightarrow> py_error + ClassInfo list" where
  "collect_classes_within n module_str [] acc = Inr acc"
| "collect_classes_within n module_str (ClassDef nm bs body # rest) acc =
     (case collect_bases_within n bs [] of
        Inl err \<Rightarrow> Inl err
      | Inr resolved \<Rightarrow>
          collect_classes_within n module_str rest
            (acc @ [\<lparr>module = module_str, name = nm, bases = resolved,
                      methods = collect_methods body []\<rparr>]))"
| "collect_classes_within n module_str (_ # rest) acc = collect_classes_within n module_str rest acc"

definition parse_classes_within ::
  "nat \<Rightarrow> (string \<Rightarrow> py_error + node) \<Rightarrow> source_file \<Rightarrow> py_error + ClassInfo list" where
  "parse_classes_within n ast_parse py_file =
     (case read_text py_file of
        Inl e \<Rightarrow> Inr []
      | Inr source \<Rightarrow>
          (case ast_parse source of
             Inl e \<Rightarrow> Inr []
           | Inr tree \<Rightarrow> collect_classes_within n (module_str_of py_file) (ast_walk [tree]) []))"

fun all_classes_within ::
  "nat \<Rightarrow> (string \<Rightarrow> py_error + node) \<Rightarrow> source_file list \<Rightarrow> ClassInfo list \<Rightarrow> py_error + ClassInfo list" where
  "all_classes_within n ast_parse [] acc = Inr acc"
| "all_classes_within n ast_parse (f # py_files) acc =
     (case parse_classes_within n ast_parse f of
        Inl err \<Rightarrow> Inl err
      | Inr classes \<Rightarrow> all_classes_within n ast_parse py_files (acc @ classes))"

section \<open>Model aggregator\<close>

text \<open>
  A \<^verbatim>\<open>dict\<close> whose values are lists, as an association list in insertion order (which a
  Python \<^verbatim>\<open>dict\<close> keeps): \<^verbatim>\<open>d.setdefault(k, []).append(v)\<close> and \<^verbatim>\<open>d.get(k, [])\<close>.
\<close>

fun setdefault_append :: "'k \<Rightarrow> 'v \<Rightarrow> ('k \<times> 'v list) list \<Rightarrow> ('k \<times> 'v list) list" where
  "setdefault_append k v [] = [(k, [v])]"
| "setdefault_append k v ((k', vs) # d) =
     (if k' = k then (k', vs @ [v]) # d else (k', vs) # setdefault_append k v d)"

definition dict_get :: "('k \<times> 'v list) list \<Rightarrow> 'k \<Rightarrow> 'v list" where
  "dict_get d k = (case map_of d k of None \<Rightarrow> [] | Some vs \<Rightarrow> vs)"

definition by_simple_of :: "ClassInfo list \<Rightarrow> (string \<times> ClassInfo list) list" where
  "by_simple_of all_classes = foldl (\<lambda>d c. setdefault_append (name c) c d) [] all_classes"

definition by_module_of :: "ClassInfo list \<Rightarrow> (string \<times> ClassInfo list) list" where
  "by_module_of all_classes = foldl (\<lambda>d c. setdefault_append (module c) c d) [] all_classes"

section \<open>Diagram renderer\<close>

text \<open>\<^verbatim>\<open>str.split(".")\<close>: always at least one segment.\<close>

fun split_char :: "char \<Rightarrow> string \<Rightarrow> string list" where
  "split_char sep [] = [[]]"
| "split_char sep (x # xs) =
     (if x = sep then [] # split_char sep xs
      else (case split_char sep xs of
              [] \<Rightarrow> [[x]]
            | seg # segs \<Rightarrow> (x # seg) # segs))"

definition dq :: string where
  "dq = [CHR 0x22]"

definition method_line :: "string \<Rightarrow> string" where
  "method_line m = ''      + '' @ m @ ''()''"

definition elision_line :: string where
  "elision_line = ''      .. (more) ..''"

definition class_header :: "ClassInfo \<Rightarrow> string" where
  "class_header c = ''    class '' @ dq @ fqname c @ dq @ '' as '' @ alias_of c @ '' {''"

text \<open>Lines 112 to 119: the block of one class.\<close>

definition class_block :: "ClassInfo \<Rightarrow> string list" where
  "class_block c =
     [class_header c]
     @ map method_line (take 12 (sort (methods c)))
     @ (if length (methods c) > 12 then [elision_line] else [])
     @ [''    }'']"

text \<open>
  Lines 108 to 120: the container of one module. \<^verbatim>\<open>sorted(classes, key=...)\<close> is stable, as
  \<open>sort_key\<close> is.
\<close>

definition module_block :: "string \<Rightarrow> string \<times> ClassInfo list \<Rightarrow> string list" where
  "module_block package_name item =
     (let module_key = fst item; classes = snd item;
          display_module = (if module_key \<noteq> [] then last (split_char (CHR ''.'') module_key)
                            else package_name)
      in [''  package '' @ dq @ display_module @ dq @ '' {'']
         @ concat (map class_block (sort_key name classes))
         @ [''  }''])"

definition edge_line :: "ClassInfo \<Rightarrow> ClassInfo \<Rightarrow> string" where
  "edge_line c t = alias_of c @ '' --|> '' @ alias_of t"

text \<open>Lines 125 to 130: the three nested loops, each appending to \<^verbatim>\<open>lines\<close>.\<close>

definition base_edges :: "(string \<times> ClassInfo list) list \<Rightarrow> ClassInfo \<Rightarrow> string \<Rightarrow> string list" where
  "base_edges by_simple c b = map (\<lambda>t. edge_line c t) (dict_get by_simple b)"

definition class_edges :: "(string \<times> ClassInfo list) list \<Rightarrow> ClassInfo \<Rightarrow> string list" where
  "class_edges by_simple c = concat (map (base_edges by_simple c) (bases c))"

definition inheritance_lines :: "ClassInfo list \<Rightarrow> string list" where
  "inheritance_lines all_classes =
     concat (map (class_edges (by_simple_of all_classes)) all_classes)"

text \<open>
  The (subclass, target) pairs the three loops of lines 125 to 130 visit, in order: each
  pair is one appended edge line.
\<close>

definition edge_pairs :: "ClassInfo list \<Rightarrow> (ClassInfo \<times> ClassInfo) list" where
  "edge_pairs all_classes =
     concat (map (\<lambda>c. concat (map (\<lambda>b. map (\<lambda>t. (c, t)) (dict_get (by_simple_of all_classes) b))
                                     (bases c)))
                 all_classes)"

text \<open>
  Lines 97 to 132. \<^verbatim>\<open>sorted(by_module.items())\<close> compares \<^verbatim>\<open>(module, classes)\<close> tuples; the
  keys of a \<^verbatim>\<open>dict\<close> are distinct, so the comparison is decided by the key and the lists
  are never compared.
\<close>

definition puml_lines :: "string \<Rightarrow> ClassInfo list \<Rightarrow> string list" where
  "puml_lines package_name all_classes =
     [''@startuml'', ''skinparam classAttributeIconSize 0'',
      ''package '' @ dq @ package_name @ dq @ '' {'']
     @ concat (map (module_block package_name) (sort_key fst (by_module_of all_classes)))
     @ [''}'']
     @ inheritance_lines all_classes
     @ [''@enduml'']"

definition newline :: string where
  "newline = [CHR 0x0A]"

text \<open>Lines 88 to 133: everything \<^verbatim>\<open>build_puml_for_package\<close> does once the files are found.\<close>

definition render_files ::
  "(string \<Rightarrow> py_error + node) \<Rightarrow> string \<Rightarrow> source_file list \<Rightarrow> string \<times> ClassInfo list" where
  "render_files ast_parse package_name py_files =
     (let all_classes = all_classes_of ast_parse py_files
      in (join newline (puml_lines package_name all_classes), all_classes))"

section \<open>File discovery\<close>

text \<open>
  The tree below a directory, as \<^verbatim>\<open>os.walk\<close> finds it: a directory lists its entries in the
  order \<^verbatim>\<open>os.scandir\<close> yields them, and a file is given by its name and by what reading it as
  text does.
\<close>

datatype fs_node =
    FsFile string "py_error + string"
  | FsDir string "fs_node list"

definition startswith :: "string \<Rightarrow> string \<Rightarrow> bool" where
  "startswith s pre = (take (length pre) s = pre)"

definition endswith :: "string \<Rightarrow> string \<Rightarrow> bool" where
  "endswith s suf = (length suf \<le> length s \<and> drop (length s - length suf) s = suf)"

text \<open>The inner loop of \<^verbatim>\<open>find_python_files\<close> over the file names of one directory.\<close>

fun files_here :: "string list \<Rightarrow> fs_node list \<Rightarrow> source_file list" where
  "files_here root [] = []"
| "files_here root (FsFile fn content # es) =
     (if endswith fn ''.py'' \<and> fn \<noteq> ''__init__.py''
      then [\<lparr>rel_parts = root @ [fn], read_text = content\<rparr>] else [])
     @ files_here root es"
| "files_here root (FsDir d sub # es) = files_here root es"

text \<open>
  \<^verbatim>\<open>os.walk\<close>, top down: the files of a directory, then each of its subdirectories that the
  pruning of \<^verbatim>\<open>dirs\<close> keeps, in order. \<open>root\<close> is the path below the package directory.
\<close>

fun find_python_files_from :: "string list \<Rightarrow> fs_node list \<Rightarrow> source_file list"
  and walk_dirs :: "string list \<Rightarrow> fs_node list \<Rightarrow> source_file list" where
  "find_python_files_from root entries = files_here root entries @ walk_dirs root entries"
| "walk_dirs root [] = []"
| "walk_dirs root (FsFile fn content # es) = walk_dirs root es"
| "walk_dirs root (FsDir d sub # es) =
     (if d \<noteq> ''__pycache__'' \<and> \<not> startswith d ''.''
      then find_python_files_from (root @ [d]) sub else [])
     @ walk_dirs root es"

definition find_python_files :: "fs_node list \<Rightarrow> source_file list" where
  "find_python_files package_dir = find_python_files_from [] package_dir"

section \<open>Paths and the operating system\<close>

text \<open>
  A \<^verbatim>\<open>pathlib\<close> path on POSIX: its root (\<^verbatim>\<open>""\<close> for a relative path, \<^verbatim>\<open>"/"\<close>, or \<^verbatim>\<open>"//"\<close> for exactly
  two leading slashes) and its parts. Parsing a string drops empty parts and \<^verbatim>\<open>"."\<close> and
  keeps \<^verbatim>\<open>".."\<close>; joining with a string that has a root replaces the path.
\<close>

type_synonym pure_path = "string \<times> string list"

definition splitroot :: "string \<Rightarrow> string \<times> string" where
  "splitroot p =
     (if take 1 p \<noteq> ''/'' then ([], p)
      else if take 1 (drop 1 p) \<noteq> ''/'' \<or> take 1 (drop 2 p) = ''/'' then (''/'', drop 1 p)
      else (take 2 p, drop 2 p))"

definition parse_parts :: "string \<Rightarrow> string list" where
  "parse_parts rel = filter (\<lambda>x. x \<noteq> [] \<and> x \<noteq> ''.'') (split_char (CHR ''/'') rel)"

definition truediv :: "pure_path \<Rightarrow> string \<Rightarrow> pure_path" where
  "truediv p key =
     (let (anchor, rel) = splitroot key
      in if anchor \<noteq> [] then (anchor, parse_parts rel) else (fst p, snd p @ parse_parts rel))"

definition path_str :: "pure_path \<Rightarrow> string" where
  "path_str p =
     (if fst p = [] \<and> snd p = [] then ''.'' else fst p @ join ''/'' (snd p))"

text \<open>
  The operating system is seen through \<^verbatim>\<open>os.stat\<close>: for a path string, the error it raises,
  or that the path is something other than a directory, or that it is a directory, with
  the tree \<^verbatim>\<open>os.walk\<close> finds below it. How the system resolves the string (components, links,
  permissions, length limits) is the system's own affair and stays inside this function.
\<close>

datatype stat_outcome =
    StatRaises py_error
  | StatFile
  | StatDir "fs_node list"

type_synonym os_state = "string \<Rightarrow> stat_outcome"

text \<open>
  \<^verbatim>\<open>pathlib._ignore_error\<close>: the error numbers \<^verbatim>\<open>ENOENT\<close>, \<^verbatim>\<open>ENOTDIR\<close>, \<^verbatim>\<open>EBADF\<close> and \<^verbatim>\<open>ELOOP\<close>.
\<close>

fun ignore_error :: "py_error \<Rightarrow> bool" where
  "ignore_error (FileNotFoundError msg) = True"
| "ignore_error NotADirectoryError = True"
| "ignore_error (OSError errno) = (errno = ''EBADF'' \<or> errno = ''ELOOP'')"
| "ignore_error _ = False"

text \<open>
  \<^verbatim>\<open>Path.exists\<close> and \<^verbatim>\<open>Path.is_dir\<close> (Python 3.8 to 3.13): an ignored \<^verbatim>\<open>OSError\<close> and a
  \<^verbatim>\<open>ValueError\<close> give \<^verbatim>\<open>False\<close>, every other error of \<^verbatim>\<open>stat\<close> is raised again.
\<close>

definition path_exists :: "os_state \<Rightarrow> pure_path \<Rightarrow> py_error + bool" where
  "path_exists os p =
     (case os (path_str p) of
        StatRaises e \<Rightarrow> if ignore_error e \<or> e = ValueError then Inr False else Inl e
      | StatFile \<Rightarrow> Inr True
      | StatDir entries \<Rightarrow> Inr True)"

definition is_dir :: "os_state \<Rightarrow> pure_path \<Rightarrow> py_error + bool" where
  "is_dir os p =
     (case os (path_str p) of
        StatRaises e \<Rightarrow> if ignore_error e \<or> e = ValueError then Inr False else Inl e
      | StatFile \<Rightarrow> Inr False
      | StatDir entries \<Rightarrow> Inr True)"

definition walk_tree :: "os_state \<Rightarrow> pure_path \<Rightarrow> fs_node list" where
  "walk_tree os p = (case os (path_str p) of StatDir entries \<Rightarrow> entries | _ \<Rightarrow> [])"

text \<open>
  What the run takes from its surroundings: Python's parser, the frames left when
  \<^verbatim>\<open>parse_classes\<close> calls \<^verbatim>\<open>_base_name\<close>, and the two calls that change the file system,
  \<^verbatim>\<open>Path.mkdir(parents=True, exist_ok=True)\<close> and \<^verbatim>\<open>Path.write_text\<close>, each giving the new
  state and the error it raises, if any.
\<close>

record runtime =
  parser :: "string \<Rightarrow> py_error + node"
  frames :: nat
  mkdir :: "os_state \<Rightarrow> string \<Rightarrow> os_state \<times> py_error option"
  write_text :: "os_state \<Rightarrow> string \<Rightarrow> string \<Rightarrow> os_state \<times> py_error option"

text \<open>
  \<^verbatim>\<open>build_puml_for_package\<close>. \<^verbatim>\<open>not exists() or not is_dir()\<close> tests \<^verbatim>\<open>exists\<close> first and
  \<^verbatim>\<open>is_dir\<close> only when the path exists; the message holds \<^verbatim>\<open>str(package_dir)\<close>.
\<close>

definition build_puml_for_package ::
  "runtime \<Rightarrow> os_state \<Rightarrow> string \<Rightarrow> pure_path \<Rightarrow> py_error + string \<times> ClassInfo list" where
  "build_puml_for_package rt os package_name root =
     (let package_dir = truediv root package_name;
          not_found = FileNotFoundError (''Package directory not found: '' @ path_str package_dir)
      in case path_exists os package_dir of
           Inl e \<Rightarrow> Inl e
         | Inr there \<Rightarrow>
             if \<not> there then Inl not_found
             else (case is_dir os package_dir of
                     Inl e \<Rightarrow> Inl e
                   | Inr dir \<Rightarrow>
                       if \<not> dir then Inl not_found
                       else (case all_classes_within (frames rt) (parser rt)
                                    (find_python_files (walk_tree os package_dir)) [] of
                               Inl e \<Rightarrow> Inl e
                             | Inr all_classes \<Rightarrow>
                                 Inr (join newline (puml_lines package_name all_classes),
                                      all_classes))))"






section \<open>Sample inputs\<close>

text \<open>
  A few Python sources and the trees \<^verbatim>\<open>ast.parse\<close> builds for them (\<^verbatim>\<open>pass\<close> is an
  \<open>OtherNode\<close> without children). \<open>sample_parse\<close> stands for \<^verbatim>\<open>ast.parse\<close> on these sources
  and on \<open>src_bad\<close>, which is not Python; it is used on no other text.
\<close>

definition src_base :: string where
  "src_base = ''class Base: pass''"

definition src_a :: string where
  "src_a = ''class A(Base): pass''"

definition src_b :: string where
  "src_b = ''class B(Base): pass''"

definition src_dup :: string where
  "src_dup = ''class A(x.Base, y.Base): pass''"

definition src_self :: string where
  "src_self = ''class Base(lib.Base): pass''"

definition src_models :: string where
  "src_models = ''class P:'' @ newline @ ''    class Meta: pass'' @ newline
              @ ''class Q:'' @ newline @ ''    class Meta: pass''"

definition src_c :: string where
  "src_c = ''class C: pass''"

definition src_bad :: string where
  "src_bad = ''class (''"

definition sample_parse :: "string \<Rightarrow> py_error + node" where
  "sample_parse source =
     (if source = src_base then Inr (Module [ClassDef ''Base'' [] [OtherNode []]])
      else if source = src_a then Inr (Module [ClassDef ''A'' [Name ''Base''] [OtherNode []]])
      else if source = src_b then Inr (Module [ClassDef ''B'' [Name ''Base''] [OtherNode []]])
      else if source = src_dup then
        Inr (Module [ClassDef ''A'' [Attribute (Name ''x'') ''Base'', Attribute (Name ''y'') ''Base'']
                       [OtherNode []]])
      else if source = src_self then
        Inr (Module [ClassDef ''Base'' [Attribute (Name ''lib'') ''Base''] [OtherNode []]])
      else if source = src_models then
        Inr (Module [ClassDef ''P'' [] [ClassDef ''Meta'' [] [OtherNode []]],
                     ClassDef ''Q'' [] [ClassDef ''Meta'' [] [OtherNode []]]])
      else if source = src_c then Inr (Module [ClassDef ''C'' [] [OtherNode []]])
      else Inl SyntaxError)"

definition file_base :: source_file where
  "file_base = \<lparr>rel_parts = [''base.py''], read_text = Inr src_base\<rparr>"

definition file_a :: source_file where
  "file_a = \<lparr>rel_parts = [''a.py''], read_text = Inr src_a\<rparr>"

definition file_b :: source_file where
  "file_b = \<lparr>rel_parts = [''b.py''], read_text = Inr src_b\<rparr>"

definition file_dup :: source_file where
  "file_dup = \<lparr>rel_parts = [''a.py''], read_text = Inr src_dup\<rparr>"

definition file_self :: source_file where
  "file_self = \<lparr>rel_parts = [''mine.py''], read_text = Inr src_self\<rparr>"

definition file_models :: source_file where
  "file_models = \<lparr>rel_parts = [''models.py''], read_text = Inr src_models\<rparr>"

definition file_flat :: source_file where
  "file_flat = \<lparr>rel_parts = [''a_b.py''], read_text = Inr src_c\<rparr>"

definition file_nested :: source_file where
  "file_nested = \<lparr>rel_parts = [''a'', ''b.py''], read_text = Inr src_c\<rparr>"

definition file_bad :: source_file where
  "file_bad = \<lparr>rel_parts = [''bad.py''], read_text = Inr src_bad\<rparr>"

definition file_locked :: source_file where
  "file_locked = \<lparr>rel_parts = [''locked.py''], read_text = Inl PermissionError\<rparr>"

definition thirteen :: ClassInfo where
  "thirteen = \<lparr>module = ''m'', name = ''Big'',
      bases = [], methods = [''m13'', ''m12'', ''m11'', ''m10'', ''m09'', ''m08'', ''m07'', ''m06'',
                            ''m05'', ''m04'', ''m03'', ''m02'', ''m01'']\<rparr>"

definition two_methods :: ClassInfo where
  "two_methods = \<lparr>module = ''m'', name = ''Small'', bases = [], methods = [''stop'', ''go'']\<rparr>"

definition rec_a :: ClassInfo where
  "rec_a = \<lparr>module = ''a'', name = ''A'', bases = [''Base''], methods = []\<rparr>"

definition rec_base :: ClassInfo where
  "rec_base = \<lparr>module = ''base'', name = ''Base'', bases = [], methods = []\<rparr>"

definition rec_dup :: ClassInfo where
  "rec_dup = \<lparr>module = ''a'', name = ''A'', bases = [''Base'', ''Base''], methods = []\<rparr>"

definition rec_self :: ClassInfo where
  "rec_self = \<lparr>module = ''mine'', name = ''Base'', bases = [''Base''], methods = []\<rparr>"

definition rec_sub_b :: ClassInfo where
  "rec_sub_b = \<lparr>module = ''sub.b'', name = ''B'', bases = [''Base''], methods = []\<rparr>"




definition long_name :: string where
  "long_name = replicate 300 (CHR ''x'')"

definition sample_repo :: pure_path where
  "sample_repo = (''/'', [''repo''])"

definition pkg_tree :: "fs_node list" where
  "pkg_tree =
     [FsFile ''a.py'' (Inr src_a),
      FsFile ''__init__.py'' (Inr src_base),
      FsDir ''__pycache__'' [FsFile ''b.py'' (Inr src_b)],
      FsFile ''bad.py'' (Inr src_bad),
      FsDir ''sub'' [FsFile ''b.py'' (Inr src_b)]]"

definition broken_tree :: "fs_node list" where
  "broken_tree = [FsFile ''bad.py'' (Inr src_bad), FsFile ''locked.py'' (Inl PermissionError)]"


definition sample_os :: os_state where
  "sample_os p =
     (if p = ''/repo/pkg'' then StatDir pkg_tree
      else if p = ''/repo/pkg/sub'' then StatDir [FsFile ''b.py'' (Inr src_b)]
      else if p = ''/repo/broken'' then StatDir broken_tree
      else if p = ''/repo/README.md'' then StatFile
      else if p = ''/repo'' then
        StatDir [FsFile ''README.md'' (Inr ''notes''), FsDir ''pkg'' pkg_tree,
                 FsDir ''broken'' broken_tree]
      else if p = ''/repo/'' @ long_name then StatRaises (OSError ''ENAMETOOLONG'')
      else StatRaises (FileNotFoundError ''No such file or directory''))"


definition sample_mkdir :: "os_state \<Rightarrow> string \<Rightarrow> os_state \<times> py_error option" where
  "sample_mkdir os p =
     (case os p of
        StatDir entries \<Rightarrow> (os, None)
      | StatFile \<Rightarrow> (os, Some FileExistsError)
      | StatRaises e \<Rightarrow> (os(p := StatDir []), None))"

definition sample_write_text :: "os_state \<Rightarrow> string \<Rightarrow> string \<Rightarrow> os_state \<times> py_error option" where
  "sample_write_text os p content =
     (case os p of
        StatDir entries \<Rightarrow> (os, Some IsADirectoryError)
      | _ \<Rightarrow> (os(p := StatFile), None))"

definition sample_rt :: runtime where
  "sample_rt = \<lparr>parser = sample_parse, frames = 990, mkdir = sample_mkdir, write_text = sample_write_text\<rparr>"


section \<open>Auxiliary facts\<close>

lemma attr_chain_extends: "\<exists>qs. fst (attr_chain e ps) = ps @ qs"
  by (induction e ps rule: attr_chain.induct) auto

lemma base_name_Attribute: "base_name (Attribute v a) = Some a"
proof -
  obtain qs where q: "fst (attr_chain v [a]) = [a] @ qs"
    using attr_chain_extends by blast
  obtain parts cur where pc: "attr_chain v [a] = (parts, cur)"
    by (cases "attr_chain v [a]")
  with q have parts: "parts = a # qs" by simp
  show ?thesis
    by (cases cur) (simp_all add: pc parts)
qed

lemma collect_bases_acc: "collect_bases bs acc = acc @ collect_bases bs []"
proof (induction bs arbitrary: acc)
  case Nil
  show ?case by simp
next
  case (Cons b bs)
  have step: "collect_bases bs (acc @ [nm]) = acc @ collect_bases bs [nm]" for nm
    using Cons.IH [of "acc @ [nm]"] Cons.IH [of "[nm]"] by simp
  show ?case
    by (cases "base_name b") (simp_all add: Cons.IH [of acc] step)
qed

lemma collect_bases_concat:
  "collect_bases bs [] =
     concat (map (\<lambda>b. case base_name b of None \<Rightarrow> [] | Some nm \<Rightarrow> if nm \<noteq> [] then [nm] else []) bs)"
proof (induction bs)
  case Nil
  show ?case by simp
next
  case (Cons b bs)
  show ?case
    using Cons.IH collect_bases_acc [of bs "[nm]" for nm]
    by (cases "base_name b") simp_all
qed

lemma foldl_append_concat: "foldl (\<lambda>acc x. acc @ g x) a xs = a @ concat (map g xs)"
  by (induction xs arbitrary: a) simp_all

lemma all_classes_of_concat:
  "all_classes_of ast_parse py_files = concat (map (parse_classes ast_parse) py_files)"
  by (simp add: all_classes_of_def foldl_append_concat)

lemma dict_get_setdefault_append:
  "dict_get (setdefault_append k v d) k' = (if k' = k then dict_get d k' @ [v] else dict_get d k')"
  by (induction d) (auto simp: dict_get_def)

lemma dict_get_foldl:
  "dict_get (foldl (\<lambda>d c. setdefault_append (f c) c d) d0 cs) k
     = dict_get d0 k @ filter (\<lambda>c. f c = k) cs"
  by (induction cs arbitrary: d0) (auto simp: dict_get_setdefault_append)

lemma dict_get_by_simple: "dict_get (by_simple_of cs) b = filter (\<lambda>t. name t = b) cs"
  by (simp add: by_simple_of_def dict_get_foldl) (simp add: dict_get_def)

lemma base_edges_filter:
  "base_edges (by_simple_of cs) c b = map (edge_line c) (filter (\<lambda>t. name t = b) cs)"
  by (simp add: base_edges_def dict_get_by_simple)

lemma inheritance_lines_pairs:
  "inheritance_lines cs = map (\<lambda>p. edge_line (fst p) (snd p)) (edge_pairs cs)"
  by (simp add: inheritance_lines_def class_edges_def [abs_def] base_edges_def [abs_def]
      edge_pairs_def map_concat comp_def)

lemma count_list_concat_map:
  "count_list (concat (map g xs)) y = sum_list (map (\<lambda>x. count_list (g x) y) xs)"
  by (induction xs) simp_all

lemma count_list_filter: "count_list (filter P ys) y = (if P y then count_list ys y else 0)"
  by (induction ys) auto

lemma count_list_Pair: "count_list (map (Pair c') ys) (c, t) = (if c' = c then count_list ys t else 0)"
  by (induction ys) auto

lemma count_targets:
  "count_list (concat (map (\<lambda>b. map (Pair c') (filter (\<lambda>t. name t = b) cs)) bs)) (c, t)
     = (if c' = c then count_list bs (name t) * count_list cs t else 0)"
  by (induction bs) (auto simp: count_list_Pair count_list_filter)

lemma count_edge_pairs:
  "count_list (edge_pairs cs) (c, t) = count_list cs c * count_list (bases c) (name t) * count_list cs t"
proof -
  have "count_list (concat (map (\<lambda>c'. concat (map (\<lambda>b. map (Pair c') (filter (\<lambda>t. name t = b) cs)) (bases c'))) xs)) (c, t)
          = count_list xs c * count_list (bases c) (name t) * count_list cs t" for xs
    by (induction xs) (auto simp: count_targets algebra_simps)
  then show ?thesis
    by (simp add: edge_pairs_def dict_get_by_simple)
qed

lemma set_edge_pairs:
  "set (edge_pairs cs) = {(c, t). c \<in> set cs \<and> t \<in> set cs \<and> name t \<in> set (bases c)}"
  by (auto simp: edge_pairs_def dict_get_by_simple)

lemma collect_classes_acc:
  "collect_classes m nodes acc = acc @ collect_classes m nodes []"
proof (induction nodes arbitrary: acc)
  case Nil
  show ?case by simp
next
  case (Cons n nodes)
  show ?case
  proof (cases n)
    case (ClassDef nm bs body)
    show ?thesis
      using Cons.IH [of "acc @ [class_record m nm bs body]"] Cons.IH [of "[class_record m nm bs body]"]
      by (simp add: ClassDef)
  qed (simp_all add: Cons.IH [of acc])
qed

lemma collect_classes_records:
  "c \<in> set (collect_classes m nodes []) \<Longrightarrow> \<exists>nm bs body. ClassDef nm bs body \<in> set nodes \<and> c = class_record m nm bs body"
proof (induction nodes)
  case Nil
  then show ?case by simp
next
  case (Cons n nodes)
  show ?case
  proof (cases n)
    case (ClassDef nm bs body)
    have "collect_classes m (n # nodes) [] = class_record m nm bs body # collect_classes m nodes []"
      using collect_classes_acc [of m nodes "[class_record m nm bs body]"] by (simp add: ClassDef)
    with Cons show ?thesis
      using ClassDef by auto
  qed (use Cons in auto)
qed

lemma parse_classes_records:
  "c \<in> set (parse_classes ast_parse f) \<Longrightarrow> \<exists>nm bs body. c = class_record (module_str_of f) nm bs body"
proof -
  assume "c \<in> set (parse_classes ast_parse f)"
  then obtain nodes where "c \<in> set (collect_classes (module_str_of f) nodes [])"
    by (auto simp: parse_classes_def split: sum.splits simp del: ast_walk.simps)
  then show ?thesis
    using collect_classes_records by blast
qed

lemma count_list_concat_singletons:
  "count_list (concat (map (\<lambda>b. case g b of None \<Rightarrow> [] | Some nm \<Rightarrow> if nm \<noteq> [] then [nm] else []) bs)) x
     = (if x \<noteq> [] then length (filter (\<lambda>b. g b = Some x) bs) else 0)"
  by (induction bs) (auto split: option.splits)

lemma header_not_method: "class_header c \<noteq> method_line m"
  by (simp add: class_header_def method_line_def)

lemma elision_not_method: "elision_line \<noteq> method_line m"
  by (simp add: elision_line_def method_line_def)

lemma close_not_method: "''    }'' \<noteq> method_line m"
  by (simp add: method_line_def)

lemma elision_not_header: "class_header c \<noteq> elision_line"
  by (simp add: class_header_def elision_line_def)

lemma filter_method_lines:
  "filter (\<lambda>l. l \<in> range method_line) (map method_line ms) = map method_line ms"
  by (induction ms) auto

lemma count_elision_methods: "count_list (map method_line ms) elision_line = 0"
  by (induction ms) (auto simp: elision_not_method [symmetric])

lemma not_method_line: "(\<And>m. l \<noteq> method_line m) \<Longrightarrow> l \<notin> range method_line"
  by auto

lemma edge_line_in_puml:
  "c \<in> set cs \<Longrightarrow> t \<in> set cs \<Longrightarrow> name t \<in> set (bases c) \<Longrightarrow> edge_line c t \<in> set (puml_lines pkg cs)"
proof -
  assume "c \<in> set cs" "t \<in> set cs" "name t \<in> set (bases c)"
  then have "(c, t) \<in> set (edge_pairs cs)"
    by (simp add: set_edge_pairs)
  then have "edge_line c t \<in> set (inheritance_lines cs)"
    unfolding inheritance_lines_pairs by force
  then show ?thesis
    by (simp add: puml_lines_def)
qed

lemma unique_target_props:
  assumes "filter (\<lambda>x. name x = b) cs = [t]"
  shows "name t = b" "t \<in> set cs" "count_list cs t = 1"
proof -
  have mem: "t \<in> set (filter (\<lambda>x. name x = b) cs)"
    using assms by simp
  then show "name t = b" "t \<in> set cs"
    by simp_all
  then have "count_list cs t = count_list (filter (\<lambda>x. name x = b) cs) t"
    by (simp add: count_list_filter)
  then show "count_list cs t = 1"
    using assms by simp
qed

lemma sample_a_base: "all_classes_of sample_parse [file_a, file_base] = [rec_a, rec_base]"
  by code_simp

lemma sample_dup_base: "all_classes_of sample_parse [file_dup, file_base] = [rec_dup, rec_base]"
  by code_simp

lemma sample_self_base: "all_classes_of sample_parse [file_self, file_base] = [rec_self, rec_base]"
  by code_simp

subsection \<open>Permuting the discovered files\<close>

lemma mset_concat_map_perm:
  "mset xs = mset ys \<Longrightarrow> mset (concat (map g xs)) = mset (concat (map g ys))"
proof -
  assume eq: "mset xs = mset ys"
  have "mset (concat (map g zs)) = sum_mset (image_mset (\<lambda>z. mset (g z)) (mset zs))" for zs
    by (induction zs) simp_all
  then show ?thesis
    using eq by simp
qed

lemma mset_concat_map_pointwise:
  "(\<And>x. x \<in> set xs \<Longrightarrow> mset (g x) = mset (h x)) \<Longrightarrow> mset (concat (map g xs)) = mset (concat (map h xs))"
  by (induction xs) simp_all

lemma all_classes_of_perm:
  "mset fs = mset fs' \<Longrightarrow> mset (all_classes_of ast_parse fs) = mset (all_classes_of ast_parse fs')"
  unfolding all_classes_of_concat by (rule mset_concat_map_perm)

lemma inheritance_lines_filter:
  "inheritance_lines cs
     = concat (map (\<lambda>c. concat (map (\<lambda>b. map (edge_line c) (filter (\<lambda>t. name t = b) cs)) (bases c))) cs)"
proof -
  have "base_edges (by_simple_of cs) c = (\<lambda>b. map (edge_line c) (filter (\<lambda>t. name t = b) cs))" for c
    by (rule ext) (rule base_edges_filter)
  then show ?thesis
    by (simp add: inheritance_lines_def class_edges_def [abs_def])
qed

lemma inheritance_lines_perm:
  assumes "mset cs = mset cs'"
  shows "mset (inheritance_lines cs) = mset (inheritance_lines cs')"
proof -
  let ?G = "\<lambda>L c. concat (map (\<lambda>b. map (edge_line c) (filter (\<lambda>t. name t = b) L)) (bases c))"
  have inner: "mset (?G cs c) = mset (?G cs' c)" for c
    by (rule mset_concat_map_pointwise) (simp add: assms)
  have "mset (concat (map (?G cs) cs)) = mset (concat (map (?G cs') cs))"
    by (rule mset_concat_map_pointwise) (rule inner)
  also have "\<dots> = mset (concat (map (?G cs') cs'))"
    using assms by (rule mset_concat_map_perm)
  finally show ?thesis
    by (simp add: inheritance_lines_filter)
qed

lemma filter_key_perm:
  assumes "distinct (map g xs)" and "mset xs = mset ys"
  shows "filter (\<lambda>x. g x = k) xs = filter (\<lambda>x. g x = k) ys"
proof -
  have m: "mset (filter (\<lambda>x. g x = k) xs) = mset (filter (\<lambda>x. g x = k) ys)"
    using assms(2) by simp
  have d: "distinct (map g (filter (\<lambda>x. g x = k) xs))"
    using assms(1) by (rule distinct_map_filter)
  show ?thesis
  proof (cases "filter (\<lambda>x. g x = k) xs")
    case Nil
    with m show ?thesis by simp
  next
    case (Cons a as)
    have "as = []"
    proof (cases as)
      case Nil
      then show ?thesis by simp
    next
      case (Cons b bs)
      have "a \<in> set (filter (\<lambda>x. g x = k) xs)" "b \<in> set (filter (\<lambda>x. g x = k) xs)"
        using \<open>filter (\<lambda>x. g x = k) xs = a # as\<close> Cons by simp_all
      then have "g a = g b"
        by simp
      with d \<open>filter (\<lambda>x. g x = k) xs = a # as\<close> Cons show ?thesis
        by simp
    qed
    with Cons have "filter (\<lambda>x. g x = k) xs = [a]"
      by simp
    with m have "mset (filter (\<lambda>x. g x = k) ys) = {#a#}"
      by simp
    then have "filter (\<lambda>x. g x = k) ys = [a]"
      by (simp only: mset_single_iff)
    with \<open>filter (\<lambda>x. g x = k) xs = [a]\<close> show ?thesis
      by simp
  qed
qed

lemma module_of_parsed: "c \<in> set (parse_classes ast_parse f) \<Longrightarrow> module c = module_str_of f"
  using parse_classes_records [of c ast_parse f] by (auto simp: class_record_def)

lemma filter_module_parsed:
  "filter (\<lambda>c. module c = k) (parse_classes ast_parse f)
     = (if module_str_of f = k then parse_classes ast_parse f else [])"
proof (cases "module_str_of f = k")
  case True
  then have "\<forall>c\<in>set (parse_classes ast_parse f). module c = k"
    by (simp add: module_of_parsed)
  then show ?thesis
    using True by simp
next
  case False
  then have "\<forall>c\<in>set (parse_classes ast_parse f). module c \<noteq> k"
    by (simp add: module_of_parsed)
  then show ?thesis
    using False by (simp add: filter_empty_conv)
qed

lemma filter_module_all_classes:
  "filter (\<lambda>c. module c = k) (all_classes_of ast_parse fs)
     = concat (map (parse_classes ast_parse) (filter (\<lambda>f. module_str_of f = k) fs))"
  by (induction fs) (simp_all add: all_classes_of_concat filter_module_parsed)

lemma module_groups_perm:
  assumes "distinct (map module_str_of fs)" and "mset fs = mset fs'"
  shows "filter (\<lambda>c. module c = k) (all_classes_of ast_parse fs)
           = filter (\<lambda>c. module c = k) (all_classes_of ast_parse fs')"
  using filter_key_perm [OF assms, of k] by (simp add: filter_module_all_classes)

lemma keys_setdefault_append: "fst ` set (setdefault_append k v d) = insert k (fst ` set d)"
proof (induction d)
  case Nil
  show ?case by simp
next
  case (Cons e d)
  obtain k' vs where e: "e = (k', vs)"
    by (cases e)
  show ?case
  proof (cases "k' = k")
    case True
    then show ?thesis
      by (simp add: e)
  next
    case False
    then show ?thesis
      using Cons.IH by (simp add: e insert_commute)
  qed
qed

lemma keys_foldl_setdefault:
  "fst ` set (foldl (\<lambda>d c. setdefault_append (f c) c d) d0 cs) = fst ` set d0 \<union> f ` set cs"
proof (induction cs arbitrary: d0)
  case Nil
  show ?case by simp
next
  case (Cons c cs)
  show ?case
    by (simp add: Cons.IH keys_setdefault_append)
qed

lemma distinct_setdefault_append:
  "distinct (map fst d) \<Longrightarrow> distinct (map fst (setdefault_append k v d))"
proof (induction d)
  case Nil
  show ?case by simp
next
  case (Cons e d)
  obtain k' vs where e: "e = (k', vs)"
    by (cases e)
  show ?case
  proof (cases "k' = k")
    case True
    with Cons.prems e show ?thesis by simp
  next
    case False
    have "k' \<notin> fst ` set (setdefault_append k v d)"
      using Cons.prems e False by (simp add: keys_setdefault_append)
    with Cons e False show ?thesis
      by simp
  qed
qed

lemma distinct_foldl_setdefault:
  "distinct (map fst d0) \<Longrightarrow> distinct (map fst (foldl (\<lambda>d c. setdefault_append (f c) c d) d0 cs))"
  by (induction cs arbitrary: d0) (simp_all add: distinct_setdefault_append)

lemma distinct_keys_by_module: "distinct (map fst (by_module_of cs))"
  by (simp add: by_module_of_def distinct_foldl_setdefault)

lemma dict_get_by_module: "dict_get (by_module_of cs) k = filter (\<lambda>c. module c = k) cs"
  by (simp add: by_module_of_def dict_get_foldl) (simp add: dict_get_def)

lemma set_by_module:
  "set (by_module_of cs) = (\<lambda>k. (k, filter (\<lambda>c. module c = k) cs)) ` (module ` set cs)"
proof (rule set_eqI)
  fix e :: "string \<times> ClassInfo list"
  obtain k vs where e: "e = (k, vs)"
    by (cases e)
  have keys: "fst ` set (by_module_of cs) = module ` set cs"
    by (simp add: by_module_of_def keys_foldl_setdefault)
  have val: "vs' = filter (\<lambda>c. module c = k) cs" if "(k, vs') \<in> set (by_module_of cs)" for vs'
  proof -
    have "map_of (by_module_of cs) k = Some vs'"
      using that distinct_keys_by_module by (rule map_of_is_SomeI [rotated])
    then have "dict_get (by_module_of cs) k = vs'"
      by (simp add: dict_get_def)
    then show ?thesis
      by (simp add: dict_get_by_module)
  qed
  show "e \<in> set (by_module_of cs) \<longleftrightarrow> e \<in> (\<lambda>k. (k, filter (\<lambda>c. module c = k) cs)) ` (module ` set cs)"
  proof
    assume in_d: "e \<in> set (by_module_of cs)"
    then have "fst e \<in> fst ` set (by_module_of cs)"
      by (rule imageI)
    then have "k \<in> module ` set cs"
      using keys e by simp
    moreover have "vs = filter (\<lambda>c. module c = k) cs"
      using in_d e val by simp
    ultimately show "e \<in> (\<lambda>k. (k, filter (\<lambda>c. module c = k) cs)) ` (module ` set cs)"
      using e by blast
  next
    assume "e \<in> (\<lambda>k. (k, filter (\<lambda>c. module c = k) cs)) ` (module ` set cs)"
    then have k: "k \<in> module ` set cs" and vs: "vs = filter (\<lambda>c. module c = k) cs"
      using e by auto
    from k keys have "k \<in> fst ` set (by_module_of cs)"
      by simp
    then obtain p where "p \<in> set (by_module_of cs)" and "k = fst p"
      by (rule imageE)
    then have "(k, snd p) \<in> set (by_module_of cs)"
      by simp
    then obtain vs' where "(k, vs') \<in> set (by_module_of cs)" ..
    with val vs e show "e \<in> set (by_module_of cs)"
      by simp
  qed
qed

lemma sort_key_perm_distinct:
  assumes "distinct (map f xs)" and "mset xs = mset ys"
  shows "sort_key f xs = sort_key f ys"
proof (rule properties_for_sort_key)
  show "mset (sort_key f ys) = mset xs"
    using assms(2) by simp
  show "sorted (map f (sort_key f ys))"
    by simp
  fix k
  have "filter (\<lambda>x. f x = f k) (sort_key f ys) = filter (\<lambda>x. f x = f k) ys"
    by (rule sort_key_stable)
  also have "\<dots> = filter (\<lambda>x. f x = f k) xs"
    using filter_key_perm [OF assms, of "f k"] by simp
  finally show "filter (\<lambda>x. f k = f x) (sort_key f ys) = filter (\<lambda>x. f k = f x) xs"
    by (simp add: eq_commute [of "f k"])
qed

lemma sorted_modules_perm:
  assumes "mset fs = mset fs'" and "distinct (map module_str_of fs)"
  shows "sort_key fst (by_module_of (all_classes_of ast_parse fs))
           = sort_key fst (by_module_of (all_classes_of ast_parse fs'))"
proof -
  let ?cs = "all_classes_of ast_parse fs" and ?cs' = "all_classes_of ast_parse fs'"
  have "mset ?cs = mset ?cs'"
    using assms(1) by (rule all_classes_of_perm)
  then have sets: "set ?cs = set ?cs'"
    by (rule mset_eq_setD)
  have groups: "filter (\<lambda>c. module c = k) ?cs = filter (\<lambda>c. module c = k) ?cs'" for k
    using assms(2,1) by (rule module_groups_perm)
  have "set (by_module_of ?cs) = set (by_module_of ?cs')"
    by (simp add: set_by_module sets groups)
  moreover have "distinct (by_module_of ?cs)" "distinct (by_module_of ?cs')"
    using distinct_keys_by_module by (simp_all add: distinct_map)
  ultimately have "mset (by_module_of ?cs) = mset (by_module_of ?cs')"
    by (simp add: set_eq_iff_mset_eq_distinct)
  with distinct_keys_by_module show ?thesis
    by (rule sort_key_perm_distinct)
qed

text \<open>
  What does hold across discovery orders: when the files of the package have pairwise
  distinct module strings, two orders of the same files give documents that agree on
  everything before the edge lines, and whose edge lines are the same up to their order.
\<close>

lemma containers_order_independent:
  assumes "mset fs = mset fs'" and "distinct (map module_str_of fs)"
  shows "\<exists>body.
           puml_lines pkg (all_classes_of ast_parse fs)
             = body @ inheritance_lines (all_classes_of ast_parse fs) @ [''@enduml'']
         \<and> puml_lines pkg (all_classes_of ast_parse fs')
             = body @ inheritance_lines (all_classes_of ast_parse fs') @ [''@enduml'']
         \<and> mset (inheritance_lines (all_classes_of ast_parse fs))
             = mset (inheritance_lines (all_classes_of ast_parse fs'))"
proof -
  let ?body = "\<lambda>cs. [''@startuml'', ''skinparam classAttributeIconSize 0'',
          ''package '' @ dq @ pkg @ dq @ '' {'']
         @ concat (map (module_block pkg) (sort_key fst (by_module_of cs))) @ [''}'']"
  have split: "puml_lines pkg cs = ?body cs @ inheritance_lines cs @ [''@enduml'']" for cs
    unfolding puml_lines_def by (simp only: append_assoc)
  have same: "?body (all_classes_of ast_parse fs') = ?body (all_classes_of ast_parse fs)"
    by (simp only: sorted_modules_perm [OF assms, of ast_parse])
  have edges: "mset (inheritance_lines (all_classes_of ast_parse fs))
             = mset (inheritance_lines (all_classes_of ast_parse fs'))"
    using assms(1) by (intro inheritance_lines_perm all_classes_of_perm)
  have "puml_lines pkg (all_classes_of ast_parse fs')
          = ?body (all_classes_of ast_parse fs) @ inheritance_lines (all_classes_of ast_parse fs') @ [''@enduml'']"
    by (simp only: split [of "all_classes_of ast_parse fs'"] same)
  with split [of "all_classes_of ast_parse fs"] edges show ?thesis
    by blast
qed

subsection \<open>Stack bound, paths and the batch run\<close>

lemma base_name_within_cases:
  "base_name_within n e = Inr (base_name e) \<or> base_name_within n e = Inl RecursionError"
  by (induction n e rule: base_name_within.induct) simp_all

lemma collect_bases_within_cases:
  "collect_bases_within n bs acc = Inr (collect_bases bs acc)
   \<or> collect_bases_within n bs acc = Inl RecursionError"
proof (induction bs arbitrary: acc)
  case Nil
  show ?case by simp
next
  case (Cons b bs)
  from base_name_within_cases [of n b] show ?case
  proof
    assume ok: "base_name_within n b = Inr (base_name b)"
    show ?thesis
    proof (cases "base_name b")
      case None
      with ok Cons.IH [of acc] show ?thesis by simp
    next
      case (Some nm)
      with ok Cons.IH [of acc] Cons.IH [of "acc @ [nm]"] show ?thesis by simp
    qed
  next
    assume "base_name_within n b = Inl RecursionError"
    then show ?thesis by simp
  qed
qed

lemma collect_classes_within_cases:
  "collect_classes_within n m nodes acc = Inr (collect_classes m nodes acc)
   \<or> collect_classes_within n m nodes acc = Inl RecursionError"
proof (induction nodes arbitrary: acc)
  case Nil
  show ?case by simp
next
  case (Cons nd nodes)
  show ?case
  proof (cases nd)
    case (ClassDef nm bs body)
    from collect_bases_within_cases [of n bs "[]"] show ?thesis
    proof
      assume "collect_bases_within n bs [] = Inr (collect_bases bs [])"
      then show ?thesis
        using Cons.IH [of "acc @ [class_record m nm bs body]"]
        by (simp add: ClassDef class_record_def)
    next
      assume "collect_bases_within n bs [] = Inl RecursionError"
      then show ?thesis
        by (simp add: ClassDef)
    qed
  qed (use Cons.IH [of acc] in simp_all)
qed

lemma parse_classes_within_cases:
  "parse_classes_within n ast_parse f = Inr (parse_classes ast_parse f)
   \<or> parse_classes_within n ast_parse f = Inl RecursionError"
proof (cases "read_text f")
  case (Inl e)
  then show ?thesis
    by (simp add: parse_classes_within_def parse_classes_def)
next
  case (Inr source)
  show ?thesis
  proof (cases "ast_parse source")
    case (Inl e)
    with Inr show ?thesis
      by (simp add: parse_classes_within_def parse_classes_def)
  next
    case tree: (Inr tree)
    show ?thesis
      using collect_classes_within_cases [of n "module_str_of f" "ast_walk [tree]" "[]"]
      by (simp add: parse_classes_within_def parse_classes_def Inr tree del: ast_walk.simps)
  qed
qed

lemma all_classes_within_cases:
  "all_classes_within n ast_parse fs acc = Inr (acc @ all_classes_of ast_parse fs)
   \<or> all_classes_within n ast_parse fs acc = Inl RecursionError"
proof (induction fs arbitrary: acc)
  case Nil
  show ?case by (simp add: all_classes_of_concat)
next
  case (Cons f fs)
  from parse_classes_within_cases [of n ast_parse f] show ?case
  proof
    assume "parse_classes_within n ast_parse f = Inr (parse_classes ast_parse f)"
    then show ?thesis
      using Cons.IH [of "acc @ parse_classes ast_parse f"] by (simp add: all_classes_of_concat)
  next
    assume "parse_classes_within n ast_parse f = Inl RecursionError"
    then show ?thesis by simp
  qed
qed

lemma all_classes_within_ok:
  "\<not> isl (all_classes_within n ast_parse fs []) \<Longrightarrow>
     all_classes_within n ast_parse fs [] = Inr (all_classes_of ast_parse fs)"
  using all_classes_within_cases [of n ast_parse fs "[]"] by auto








lemma build_stat_dir:
  "os (path_str (truediv root pkg)) = StatDir sub \<Longrightarrow>
     build_puml_for_package rt os pkg root
       = (case all_classes_within (frames rt) (parser rt) (find_python_files sub) [] of
            Inl e \<Rightarrow> Inl e
          | Inr all_classes \<Rightarrow> Inr (join newline (puml_lines pkg all_classes), all_classes))"
  by (simp add: build_puml_for_package_def path_exists_def is_dir_def walk_tree_def)

lemma build_dir_ok:
  "os (path_str (truediv root pkg)) = StatDir sub \<Longrightarrow>
   \<not> isl (all_classes_within (frames rt) (parser rt) (find_python_files sub) []) \<Longrightarrow>
     build_puml_for_package rt os pkg root = Inr (render_files (parser rt) pkg (find_python_files sub))"
  by (simp add: build_stat_dir all_classes_within_ok render_files_def Let_def)











lemma sample_pkg_path: "path_str (truediv sample_repo ''pkg'') = ''/repo/pkg''"
  by code_simp

lemma sample_pkg_stat: "sample_os ''/repo/pkg'' = StatDir pkg_tree"
  by (simp add: sample_os_def)

lemma base_name_within_flat:
  "0 < n \<Longrightarrow> (\<And>v s. e \<noteq> Subscript v s) \<Longrightarrow> base_name_within n e = Inr (base_name e)"
  by (cases n; cases e) auto

lemma sample_pkg_files:
  "find_python_files pkg_tree
     = [\<lparr>rel_parts = [''a.py''], read_text = Inr src_a\<rparr>,
        \<lparr>rel_parts = [''bad.py''], read_text = Inr src_bad\<rparr>,
        \<lparr>rel_parts = [''sub'', ''b.py''], read_text = Inr src_b\<rparr>]"
  by code_simp

lemma sample_pkg_classes:
  "all_classes_of (parser sample_rt) (find_python_files pkg_tree) = [rec_a, rec_sub_b]"
  by code_simp

lemma sample_pkg_within:
  "all_classes_within (frames sample_rt) (parser sample_rt) (find_python_files pkg_tree) []
     = Inr [rec_a, rec_sub_b]"
proof -
  have parsed: "sample_parse src_a = Inr (Module [ClassDef ''A'' [Name ''Base''] [OtherNode []]])"
    "sample_parse src_b = Inr (Module [ClassDef ''B'' [Name ''Base''] [OtherNode []]])"
    "sample_parse src_bad = Inl SyntaxError"
    by code_simp+
  have mods: "module_str_of \<lparr>rel_parts = [''a.py''], read_text = Inr src_a\<rparr> = ''a''"
    "module_str_of \<lparr>rel_parts = [''sub'', ''b.py''], read_text = Inr src_b\<rparr> = ''sub.b''"
    by code_simp+
  have name: "base_name_within 990 (Name ''Base'') = Inr (Some ''Base'')"
    by (simp add: base_name_within_flat)
  show ?thesis
    unfolding sample_pkg_files
    by (simp add: sample_rt_def parse_classes_within_def parsed mods name rec_a_def rec_sub_b_def)
qed







section \<open>The claims\<close>

text \<open>
  Claim C1 fails on the code. The containers are rendered from sorted modules and classes,
  but the edge lines follow the order in which the files were discovered: the same three
  files in two orders give two different documents.
\<close>

theorem discovery_order_changes_edges:
  "mset [file_a, file_b, file_base] = mset [file_b, file_a, file_base]
   \<and> inheritance_lines (all_classes_of sample_parse [file_a, file_b, file_base])
        = [''a_A --|> base_Base'', ''b_B --|> base_Base'']
   \<and> inheritance_lines (all_classes_of sample_parse [file_b, file_a, file_base])
        = [''b_B --|> base_Base'', ''a_A --|> base_Base'']
   \<and> fst (render_files sample_parse ''pkg'' [file_a, file_b, file_base])
        \<noteq> fst (render_files sample_parse ''pkg'' [file_b, file_a, file_base])"
proof -
  have same_files: "mset [file_a, file_b, file_base] = mset [file_b, file_a, file_base]"
    by (simp add: add_mset_commute)
  have first_order: "inheritance_lines (all_classes_of sample_parse [file_a, file_b, file_base])
        = [''a_A --|> base_Base'', ''b_B --|> base_Base'']"
    by code_simp
  have second_order: "inheritance_lines (all_classes_of sample_parse [file_b, file_a, file_base])
        = [''b_B --|> base_Base'', ''a_A --|> base_Base'']"
    by code_simp
  have differ: "fst (render_files sample_parse ''pkg'' [file_a, file_b, file_base])
        \<noteq> fst (render_files sample_parse ''pkg'' [file_b, file_a, file_base])"
    by code_simp
  show ?thesis
    using same_files first_order second_order differ by (intro conjI)
qed

text \<open>
  Claim C2 fails on the code. Two nested classes of one file that share a name get the same
  alias, and so do classes of the same name in \<^verbatim>\<open>a_b.py\<close> and in \<^verbatim>\<open>a/b.py\<close>, since the alias
  joins module and name with the character that replaces the dots of the module.
\<close>

theorem alias_collisions:
  "map alias_of (all_classes_of sample_parse [file_models])
     = [''models_P'', ''models_Q'', ''models_Meta'', ''models_Meta'']
   \<and> \<not> distinct (map alias_of (all_classes_of sample_parse [file_models]))
   \<and> map module (all_classes_of sample_parse [file_flat, file_nested]) = [''a_b'', ''a.b'']
   \<and> map alias_of (all_classes_of sample_parse [file_flat, file_nested]) = [''a_b_C'', ''a_b_C'']
   \<and> \<not> distinct (map alias_of (all_classes_of sample_parse [file_flat, file_nested]))"
proof -
  have nested: "map alias_of (all_classes_of sample_parse [file_models])
     = [''models_P'', ''models_Q'', ''models_Meta'', ''models_Meta'']"
    by code_simp
  have modules: "map module (all_classes_of sample_parse [file_flat, file_nested]) = [''a_b'', ''a.b'']"
    by code_simp
  have joined: "map alias_of (all_classes_of sample_parse [file_flat, file_nested]) = [''a_b_C'', ''a_b_C'']"
    by code_simp
  show ?thesis
    unfolding nested modules joined by simp
qed

text \<open>
  Claim C3, amended. The \<open>bases\<close> of an extracted record list, in declaration order, the
  identifier of every declared base expression that resolves to a non-empty name: an
  identifier appears once for each base expression that resolves to it (duplicates are
  kept), and an expression that does not resolve contributes nothing. Every record the
  extractor returns is built this way.
\<close>

theorem extracted_bases:
  "bases (class_record m n bs body)
     = concat (map (\<lambda>b. case base_name b of None \<Rightarrow> [] | Some nm \<Rightarrow> if nm \<noteq> [] then [nm] else []) bs)
   \<and> (x \<noteq> [] \<longrightarrow> count_list (bases (class_record m n bs body)) x
                      = length (filter (\<lambda>b. base_name b = Some x) bs))
   \<and> (base_name u = None \<longrightarrow> bases (class_record m n (pre @ u # post) body)
                                = bases (class_record m n (pre @ post) body))
   \<and> (c \<in> set (parse_classes ast_parse f)
        \<longrightarrow> (\<exists>nm' bs' body'. c = class_record (module_str_of f) nm' bs' body'))"
  using parse_classes_records [of c ast_parse f]
  by (simp add: class_record_def collect_bases_concat count_list_concat_singletons)

text \<open>Claim C3, amended, at \<^verbatim>\<open>class A(x.Base, y.Base)\<close> and at the bases \<^verbatim>\<open>B, f(), C\<close>.\<close>

theorem extracted_bases_witness:
  "''Base'' \<noteq> []
   \<and> count_list (bases (class_record ''a'' ''A'' [Attribute (Name ''x'') ''Base'', Attribute (Name ''y'') ''Base''] [])) ''Base'' = 2
   \<and> base_name (Call (Name ''f'') []) = None
   \<and> bases (class_record ''a'' ''A'' ([Name ''B''] @ Call (Name ''f'') [] # [Name ''C'']) []) = [''B'', ''C'']
   \<and> class_record ''a'' ''A'' [Attribute (Name ''x'') ''Base'', Attribute (Name ''y'') ''Base''] [OtherNode []]
        \<in> set (parse_classes sample_parse file_dup)"
proof -
  have member: "class_record ''a'' ''A'' [Attribute (Name ''x'') ''Base'', Attribute (Name ''y'') ''Base''] [OtherNode []]
        \<in> set (parse_classes sample_parse file_dup)"
    by code_simp
  have evaluated: "bases (class_record ''a'' ''A'' ([Name ''B''] @ [Name ''C'']) []) = [''B'', ''C'']"
    by code_simp
  show ?thesis
    using member evaluated
      extracted_bases [where m = "''a''" and n = "''A''" and body = "[]" and x = "''Base''"
        and bs = "[Attribute (Name ''x'') ''Base'', Attribute (Name ''y'') ''Base'']"
        and u = "Call (Name ''f'') []" and pre = "[Name ''B'']" and post = "[Name ''C'']"]
    by (simp add: base_name_Attribute)
qed

text \<open>
  Claim C3 as stated fails: \<^verbatim>\<open>class A(x.Base, y.Base): pass\<close> is extracted with the base
  identifier \<^verbatim>\<open>Base\<close> twice.
\<close>

theorem extracted_bases_duplicate:
  "parse_classes sample_parse file_dup
     = [\<lparr>module = ''a'', name = ''A'', bases = [''Base'', ''Base''], methods = []\<rparr>]
   \<and> \<not> distinct (bases \<lparr>module = ''a'', name = ''A'', bases = [''Base'', ''Base''], methods = []\<rparr>)"
  by code_simp

text \<open>
  Claim C4. The block of a class with more than 12 methods is its header, 12 method lines,
  one elision marker and the closing line; with at most 12 methods it is the header, one
  line for each method and the closing line, without a marker. A block never holds more
  than 12 method lines. The methods shown are in ascending order, and every method left
  out is at least as large as every method shown.
\<close>

theorem class_block_methods:
  "(12 < length (methods c) \<longrightarrow>
      class_block c = class_header c # map method_line (take 12 (sort (methods c)))
                        @ [elision_line, ''    }''])
   \<and> (length (methods c) \<le> 12 \<longrightarrow>
      class_block c = class_header c # map method_line (sort (methods c)) @ [''    }''])
   \<and> length (filter (\<lambda>l. l \<in> range method_line) (class_block c)) = min 12 (length (methods c))
   \<and> count_list (class_block c) elision_line = (if 12 < length (methods c) then 1 else 0)
   \<and> sorted (take 12 (sort (methods c)))
   \<and> mset (take 12 (sort (methods c))) + mset (drop 12 (sort (methods c))) = mset (methods c)
   \<and> (\<forall>x\<in>set (take 12 (sort (methods c))). \<forall>y\<in>set (drop 12 (sort (methods c))). x \<le> y)"
proof -
  let ?shown = "take 12 (sort (methods c))"
  let ?hidden = "drop 12 (sort (methods c))"
  have more: "class_block c = class_header c # map method_line ?shown @ [elision_line, ''    }'']"
    if "12 < length (methods c)"
    using that by (simp add: class_block_def)
  have few: "class_block c = class_header c # map method_line (sort (methods c)) @ [''    }'']"
    if "length (methods c) \<le> 12"
    using that by (simp add: class_block_def)
  have nm: "class_header c \<notin> range method_line" "elision_line \<notin> range method_line"
    "''    }'' \<notin> range method_line"
    using header_not_method elision_not_method close_not_method by (auto intro!: not_method_line)
  have lines: "length (filter (\<lambda>l. l \<in> range method_line) (class_block c)) = min 12 (length (methods c))"
    unfolding class_block_def using nm by (simp add: filter_method_lines del: One_nat_def)
  have marker: "count_list (class_block c) elision_line = (if 12 < length (methods c) then 1 else 0)"
    unfolding class_block_def
    by (simp add: count_elision_methods elision_not_header) (simp add: elision_line_def)
  have split: "sort (methods c) = ?shown @ ?hidden"
    by simp
  have sorted_all: "sorted (?shown @ ?hidden)"
    using sorted_sort [of "methods c"] by simp
  have asc: "sorted ?shown"
    using sorted_all sorted_append by blast
  have least: "\<forall>x\<in>set ?shown. \<forall>y\<in>set ?hidden. x \<le> y"
    using sorted_all sorted_append by blast
  have "mset ?shown + mset ?hidden = mset (sort (methods c))"
    by (simp flip: mset_append)
  then have all: "mset ?shown + mset ?hidden = mset (methods c)"
    by simp
  show ?thesis
    using more few lines marker asc least all by blast
qed

text \<open>Claim C4 at a class with thirteen methods and at a class with two.\<close>

theorem class_block_methods_witness:
  "12 < length (methods thirteen)
   \<and> class_block thirteen =
       [class_header thirteen, ''      + m01()'', ''      + m02()'', ''      + m03()'', ''      + m04()'',
        ''      + m05()'', ''      + m06()'', ''      + m07()'', ''      + m08()'', ''      + m09()'',
        ''      + m10()'', ''      + m11()'', ''      + m12()'', ''      .. (more) ..'', ''    }'']
   \<and> length (methods two_methods) \<le> 12
   \<and> class_block two_methods = [class_header two_methods, ''      + go()'', ''      + stop()'', ''    }'']
   \<and> length (filter (\<lambda>l. l \<in> range method_line) (class_block thirteen)) = 12
   \<and> count_list (class_block thirteen) elision_line = 1
   \<and> count_list (class_block two_methods) elision_line = 0"
proof -
  have shown: "map method_line (take 12 (sort (methods thirteen))) =
      [''      + m01()'', ''      + m02()'', ''      + m03()'', ''      + m04()'',
        ''      + m05()'', ''      + m06()'', ''      + m07()'', ''      + m08()'', ''      + m09()'',
        ''      + m10()'', ''      + m11()'', ''      + m12()'']"
    by code_simp
  have small: "map method_line (sort (methods two_methods)) = [''      + go()'', ''      + stop()'']"
    by code_simp
  have n13: "length (methods thirteen) = 13"
    by (simp add: thirteen_def)
  have n2: "length (methods two_methods) = 2"
    by (simp add: two_methods_def)
  have l13: "12 < length (methods thirteen)"
    by (simp add: n13)
  have l2: "length (methods two_methods) \<le> 12"
    by (simp add: n2)
  note big = class_block_methods [of thirteen]
  note few = class_block_methods [of two_methods]
  have b1: "class_block thirteen = class_header thirteen # map method_line (take 12 (sort (methods thirteen)))
                        @ [elision_line, ''    }'']"
    using big [THEN conjunct1] l13 by (rule mp)
  have b2: "class_block two_methods = class_header two_methods # map method_line (sort (methods two_methods)) @ [''    }'']"
    using few [THEN conjunct2, THEN conjunct1] l2 by (rule mp)
  have b3: "length (filter (\<lambda>l. l \<in> range method_line) (class_block thirteen)) = min 12 (length (methods thirteen))"
    by (rule big [THEN conjunct2, THEN conjunct2, THEN conjunct1])
  have b4: "count_list (class_block thirteen) elision_line = (if 12 < length (methods thirteen) then 1 else 0)"
    by (rule big [THEN conjunct2, THEN conjunct2, THEN conjunct2, THEN conjunct1])
  have b5: "count_list (class_block two_methods) elision_line = (if 12 < length (methods two_methods) then 1 else 0)"
    by (rule few [THEN conjunct2, THEN conjunct2, THEN conjunct2, THEN conjunct1])
  have c1: "class_block thirteen =
       [class_header thirteen, ''      + m01()'', ''      + m02()'', ''      + m03()'', ''      + m04()'',
        ''      + m05()'', ''      + m06()'', ''      + m07()'', ''      + m08()'', ''      + m09()'',
        ''      + m10()'', ''      + m11()'', ''      + m12()'', ''      .. (more) ..'', ''    }'']"
    unfolding b1 shown elision_line_def by simp
  have c2: "class_block two_methods = [class_header two_methods, ''      + go()'', ''      + stop()'', ''    }'']"
    unfolding b2 small by simp
  have c3: "length (filter (\<lambda>l. l \<in> range method_line) (class_block thirteen)) = 12"
    unfolding b3 n13 by simp
  have c4: "count_list (class_block thirteen) elision_line = 1"
    unfolding b4 n13 by simp
  have c5: "count_list (class_block two_methods) elision_line = 0"
    unfolding b5 n2 by simp
  show ?thesis
    using l13 l2 c1 c2 c3 c4 c5 by (intro conjI)
qed

text \<open>
  Claim C5. The name resolver returns the identifier of a bare name, the rightmost segment
  of a dotted attribute chain, the result for the value part of a subscripted expression,
  and nothing for every other expression shape.
\<close>

theorem base_name_shapes:
  "base_name (Name i) = Some i
   \<and> base_name (Attribute v a) = Some a
   \<and> base_name (Subscript v s) = base_name v
   \<and> ((\<forall>i'. e \<noteq> Name i') \<and> (\<forall>v' a'. e \<noteq> Attribute v' a') \<and> (\<forall>v' s'. e \<noteq> Subscript v' s')
        \<longrightarrow> base_name e = None)"
proof -
  have other: "base_name e = None"
    if "\<forall>i'. e \<noteq> Name i'" "\<forall>v' a'. e \<noteq> Attribute v' a'" "\<forall>v' s'. e \<noteq> Subscript v' s'"
    using that by (cases e) simp_all
  show ?thesis
    using other base_name_Attribute [of v a] by simp
qed

text \<open>Claim C5 at \<^verbatim>\<open>Base\<close>, \<^verbatim>\<open>a.b.C\<close>, \<^verbatim>\<open>typing.Generic[T]\<close> and the call \<^verbatim>\<open>f()\<close>.\<close>

theorem base_name_shapes_witness:
  "base_name (Name ''Base'') = Some ''Base''
   \<and> base_name (Attribute (Attribute (Name ''a'') ''b'') ''C'') = Some ''C''
   \<and> base_name (Subscript (Attribute (Name ''typing'') ''Generic'') (Name ''T''))
       = base_name (Attribute (Name ''typing'') ''Generic'')
   \<and> (\<forall>i'. Call (Name ''f'') [] \<noteq> Name i')
   \<and> (\<forall>v' a'. Call (Name ''f'') [] \<noteq> Attribute v' a')
   \<and> (\<forall>v' s'. Call (Name ''f'') [] \<noteq> Subscript v' s')
   \<and> base_name (Call (Name ''f'') []) = None"
  using base_name_shapes [where i = "''Base''" and v = "Attribute (Name ''a'') ''b''" and a = "''C''"
      and e = "Call (Name ''f'') []"]
    base_name_shapes [where v = "Attribute (Name ''typing'') ''Generic''" and s = "Name ''T''"]
  by simp

text \<open>
  Claim C6, amended. When exactly one record \<open>t\<close> of the run is named \<open>b\<close>, the lookup of
  \<open>b\<close> is \<open>[t]\<close> and each occurrence of \<open>b\<close> in the bases of a record \<open>c\<close> appends exactly
  the line from the alias of \<open>c\<close> to the alias of \<open>t\<close>. For a record \<open>c\<close> that occurs once in
  the run, the number of edges emitted for the pair \<open>(c, t)\<close> is the number of occurrences
  of \<open>b\<close> in the bases of \<open>c\<close>: one when the base is declared once.
\<close>

theorem unique_target_edges:
  assumes "filter (\<lambda>x. name x = b) cs = [t]"
  shows "dict_get (by_simple_of cs) b = [t]
     \<and> base_edges (by_simple_of cs) c b = [alias_of c @ '' --|> '' @ alias_of t]
     \<and> (count_list cs c = 1 \<longrightarrow> count_list (edge_pairs cs) (c, t) = count_list (bases c) b)
     \<and> inheritance_lines cs = map (\<lambda>p. alias_of (fst p) @ '' --|> '' @ alias_of (snd p)) (edge_pairs cs)
     \<and> (c \<in> set cs \<and> b \<in> set (bases c)
          \<longrightarrow> alias_of c @ '' --|> '' @ alias_of t \<in> set (puml_lines pkg cs))"
proof -
  note t = unique_target_props [OF assms]
  have lookup: "dict_get (by_simple_of cs) b = [t]"
    using assms by (simp add: dict_get_by_simple)
  have emitted: "base_edges (by_simple_of cs) c b = [alias_of c @ '' --|> '' @ alias_of t]"
    using assms by (simp add: base_edges_filter edge_line_def)
  have counted: "count_list (edge_pairs cs) (c, t) = count_list (bases c) b" if "count_list cs c = 1"
    using that t by (simp add: count_edge_pairs)
  have rendered: "inheritance_lines cs = map (\<lambda>p. alias_of (fst p) @ '' --|> '' @ alias_of (snd p)) (edge_pairs cs)"
    by (simp add: inheritance_lines_pairs edge_line_def)
  have present: "alias_of c @ '' --|> '' @ alias_of t \<in> set (puml_lines pkg cs)"
    if "c \<in> set cs" "b \<in> set (bases c)"
    using edge_line_in_puml [of c cs t pkg] that t by (simp add: edge_line_def)
  show ?thesis
    using lookup emitted counted rendered present by blast
qed

text \<open>Claim C6, amended, at \<^verbatim>\<open>class A(Base)\<close> in \<^verbatim>\<open>a.py\<close> and \<^verbatim>\<open>class Base\<close> in \<^verbatim>\<open>base.py\<close>.\<close>

theorem unique_target_edges_witness:
  "filter (\<lambda>x. name x = ''Base'') (all_classes_of sample_parse [file_a, file_base]) = [rec_base]
   \<and> count_list (all_classes_of sample_parse [file_a, file_base]) rec_a = 1
   \<and> rec_a \<in> set (all_classes_of sample_parse [file_a, file_base])
   \<and> ''Base'' \<in> set (bases rec_a)
   \<and> base_edges (by_simple_of (all_classes_of sample_parse [file_a, file_base])) rec_a ''Base''
        = [''a_A --|> base_Base'']
   \<and> count_list (edge_pairs (all_classes_of sample_parse [file_a, file_base])) (rec_a, rec_base) = 1
   \<and> ''a_A --|> base_Base'' \<in> set (puml_lines ''pkg'' (all_classes_of sample_parse [file_a, file_base]))"
proof -
  have h: "filter (\<lambda>x. name x = ''Base'') (all_classes_of sample_parse [file_a, file_base]) = [rec_base]"
    unfolding sample_a_base by code_simp
  have once: "count_list (all_classes_of sample_parse [file_a, file_base]) rec_a = 1"
    unfolding sample_a_base by code_simp
  have al: "alias_of rec_a = ''a_A''" "alias_of rec_base = ''base_Base''"
    by code_simp+
  have bs: "bases rec_a = [''Base'']"
    by (simp add: rec_a_def)
  show ?thesis
    using h once unique_target_edges [OF h, of rec_a "''pkg''"]
    by (simp add: al bs sample_a_base)
qed

text \<open>
  Claim C6 as stated fails: \<^verbatim>\<open>class A(x.Base, y.Base)\<close> declares a base identifier that
  matches exactly one other record, and the document holds two edges for the pair.
\<close>

theorem duplicate_base_two_edges:
  "map name (all_classes_of sample_parse [file_dup, file_base]) = [''A'', ''Base'']
   \<and> map bases (all_classes_of sample_parse [file_dup, file_base]) = [[''Base'', ''Base''], []]
   \<and> map alias_of (all_classes_of sample_parse [file_dup, file_base]) = [''a_A'', ''base_Base'']
   \<and> inheritance_lines (all_classes_of sample_parse [file_dup, file_base])
        = [''a_A --|> base_Base'', ''a_A --|> base_Base'']
   \<and> count_list (puml_lines ''pkg'' (all_classes_of sample_parse [file_dup, file_base]))
        ''a_A --|> base_Base'' = 2"
  by code_simp

text \<open>
  Claim C7. When no record of the run is named \<open>b\<close>, the lookup of \<open>b\<close> is empty, the loop
  over its targets appends nothing, no emitted edge has a target named \<open>b\<close>, and the build
  of the package directory whose extracted records these are returns the document and the
  records.
\<close>

theorem unmatched_base_no_edge:
  assumes "\<forall>t\<in>set cs. name t \<noteq> b"
  shows "dict_get (by_simple_of cs) b = []
     \<and> base_edges (by_simple_of cs) c b = []
     \<and> (\<forall>p\<in>set (edge_pairs cs). name (snd p) \<noteq> b)
     \<and> inheritance_lines cs = map (\<lambda>p. alias_of (fst p) @ '' --|> '' @ alias_of (snd p)) (edge_pairs cs)
     \<and> (os (path_str (truediv root pkg)) = StatDir sub
          \<and> cs = all_classes_of (parser rt) (find_python_files sub)
          \<and> \<not> isl (all_classes_within (frames rt) (parser rt) (find_python_files sub) [])
          \<longrightarrow> build_puml_for_package rt os pkg root = Inr (join newline (puml_lines pkg cs), cs))"
proof -
  have none: "filter (\<lambda>t. name t = b) cs = []"
    using assms by (simp add: filter_empty_conv)
  have lookup: "dict_get (by_simple_of cs) b = []"
    using none by (simp add: dict_get_by_simple)
  have emitted: "base_edges (by_simple_of cs) c b = []"
    using none by (simp add: base_edges_filter)
  have pairs: "\<forall>p\<in>set (edge_pairs cs). name (snd p) \<noteq> b"
    using assms by (auto simp: set_edge_pairs)
  have rendered: "inheritance_lines cs = map (\<lambda>p. alias_of (fst p) @ '' --|> '' @ alias_of (snd p)) (edge_pairs cs)"
    by (simp add: inheritance_lines_pairs edge_line_def)
  have built: "build_puml_for_package rt os pkg root = Inr (join newline (puml_lines pkg cs), cs)"
    if "os (path_str (truediv root pkg)) = StatDir sub"
      and "cs = all_classes_of (parser rt) (find_python_files sub)"
      and "\<not> isl (all_classes_within (frames rt) (parser rt) (find_python_files sub) [])"
    using that by (simp add: build_dir_ok render_files_def Let_def)
  show ?thesis
    using lookup emitted pairs rendered built by blast
qed

text \<open>
  Claim C7 at a package whose classes derive from \<^verbatim>\<open>Base\<close>, declared only in the skipped
  \<^verbatim>\<open>__init__.py\<close>.
\<close>

theorem unmatched_base_no_edge_witness:
  "''Base'' \<notin> set (map name [rec_a, rec_sub_b])
   \<and> ''Base'' \<in> set (bases rec_a)
   \<and> sample_os (path_str (truediv sample_repo ''pkg'')) = StatDir pkg_tree
   \<and> [rec_a, rec_sub_b] = all_classes_of (parser sample_rt) (find_python_files pkg_tree)
   \<and> \<not> isl (all_classes_within (frames sample_rt) (parser sample_rt) (find_python_files pkg_tree) [])
   \<and> base_edges (by_simple_of [rec_a, rec_sub_b]) rec_a ''Base'' = []
   \<and> inheritance_lines [rec_a, rec_sub_b] = []
   \<and> build_puml_for_package sample_rt sample_os ''pkg'' sample_repo
        = Inr (join newline (puml_lines ''pkg'' [rec_a, rec_sub_b]), [rec_a, rec_sub_b])"
proof -
  have h: "\<forall>t\<in>set [rec_a, rec_sub_b]. name t \<noteq> ''Base''"
    by (simp add: rec_a_def rec_sub_b_def)
  have h': "''Base'' \<notin> set (map name [rec_a, rec_sub_b])"
    by (simp add: rec_a_def rec_sub_b_def)
  have b: "''Base'' \<in> set (bases rec_a)"
    by (simp add: rec_a_def)
  have e: "inheritance_lines [rec_a, rec_sub_b] = []"
    by code_simp
  have stat: "sample_os (path_str (truediv sample_repo ''pkg'')) = StatDir pkg_tree"
    by (simp only: sample_pkg_path sample_pkg_stat)
  have fine: "\<not> isl (all_classes_within (frames sample_rt) (parser sample_rt) (find_python_files pkg_tree) [])"
    by (simp add: sample_pkg_within)
  show ?thesis
    using h' b e stat fine sample_pkg_classes
      unmatched_base_no_edge [OF h, where os = sample_os and root = sample_repo and pkg = "''pkg''"
        and sub = pkg_tree and rt = sample_rt and c = rec_a]
    by simp
qed




text \<open>
  Claim C9. A file whose reading or parsing raises contributes the empty list of records,
  and the records extracted from the other files of the package are those extracted
  without it.
\<close>

theorem parse_failure_swallowed:
  "isl (read_text f) \<or> (\<exists>source. read_text f = Inr source \<and> isl (ast_parse source))
   \<Longrightarrow> parse_classes ast_parse f = []
       \<and> all_classes_of ast_parse (fs1 @ f # fs2) = all_classes_of ast_parse (fs1 @ fs2)"
proof -
  assume fails: "isl (read_text f) \<or> (\<exists>source. read_text f = Inr source \<and> isl (ast_parse source))"
  then have "parse_classes ast_parse f = []"
    by (auto simp: parse_classes_def isl_def)
  then show ?thesis
    by (simp add: all_classes_of_concat)
qed

text \<open>
  Claim C9 at a file that is not Python, between two files that parse, and at a file that
  cannot be read.
\<close>

theorem parse_failure_swallowed_witness:
  "read_text file_bad = Inr src_bad
   \<and> isl (sample_parse src_bad)
   \<and> isl (read_text file_locked)
   \<and> parse_classes sample_parse file_locked = []
   \<and> parse_classes sample_parse file_bad = []
   \<and> all_classes_of sample_parse ([file_a] @ file_bad # [file_base]) = all_classes_of sample_parse ([file_a] @ [file_base])"
proof -
  have bad: "isl (sample_parse src_bad)"
    by code_simp
  then have h: "isl (read_text file_bad) \<or> (\<exists>source. read_text file_bad = Inr source \<and> isl (sample_parse source))"
    by (simp add: file_bad_def)
  have locked: "isl (read_text file_locked)"
    by (simp add: file_locked_def)
  then have h': "isl (read_text file_locked) \<or> (\<exists>source. read_text file_locked = Inr source \<and> isl (sample_parse source))"
    by simp
  have content: "read_text file_bad = Inr src_bad"
    by (simp add: file_bad_def)
  show ?thesis
    using bad locked content parse_failure_swallowed [OF h, of "[file_a]" "[file_base]"]
      parse_failure_swallowed [OF h', of "[]" "[]"]
    by simp
qed

text \<open>
  Claim C10. A record of the run that declares a base identifier equal to its own name is
  among the targets looked up for that base, so the document holds the edge from its alias
  to its own alias, and an edge to every other record of the same name.
\<close>

theorem self_named_base_loop:
  assumes "c \<in> set cs" and "name c \<in> set (bases c)"
  shows "c \<in> set (dict_get (by_simple_of cs) (name c))
     \<and> alias_of c @ '' --|> '' @ alias_of c \<in> set (base_edges (by_simple_of cs) c (name c))
     \<and> (c, c) \<in> set (edge_pairs cs)
     \<and> alias_of c @ '' --|> '' @ alias_of c \<in> set (puml_lines pkg cs)
     \<and> (\<forall>t\<in>set cs. name t = name c \<longrightarrow>
           (c, t) \<in> set (edge_pairs cs)
           \<and> alias_of c @ '' --|> '' @ alias_of t \<in> set (puml_lines pkg cs))"
proof -
  have lookup: "c \<in> set (dict_get (by_simple_of cs) (name c))"
    using assms by (simp add: dict_get_by_simple)
  have emitted: "alias_of c @ '' --|> '' @ alias_of c \<in> set (base_edges (by_simple_of cs) c (name c))"
    using assms by (auto simp: base_edges_filter edge_line_def)
  have others: "(c, t) \<in> set (edge_pairs cs) \<and> alias_of c @ '' --|> '' @ alias_of t \<in> set (puml_lines pkg cs)"
    if "t \<in> set cs" "name t = name c" for t
    using that assms edge_line_in_puml [of c cs t pkg] by (simp add: set_edge_pairs edge_line_def)
  show ?thesis
    using lookup emitted others assms by blast
qed

text \<open>Claim C10 at \<^verbatim>\<open>class Base(lib.Base)\<close> in \<^verbatim>\<open>mine.py\<close> beside \<^verbatim>\<open>class Base\<close> in \<^verbatim>\<open>base.py\<close>.\<close>

theorem self_named_base_loop_witness:
  "rec_self \<in> set [rec_self, rec_base]
   \<and> name rec_self \<in> set (bases rec_self)
   \<and> [rec_self, rec_base] = all_classes_of sample_parse [file_self, file_base]
   \<and> rec_self \<in> set (dict_get (by_simple_of [rec_self, rec_base]) ''Base'')
   \<and> ''mine_Base --|> mine_Base'' \<in> set (puml_lines ''pkg'' [rec_self, rec_base])
   \<and> ''mine_Base --|> base_Base'' \<in> set (puml_lines ''pkg'' [rec_self, rec_base])"
proof -
  have h1: "rec_self \<in> set [rec_self, rec_base]"
    by simp
  have h2: "name rec_self \<in> set (bases rec_self)"
    by (simp add: rec_self_def)
  have n: "name rec_self = ''Base''" "name rec_base = ''Base''"
    by (simp_all add: rec_self_def rec_base_def)
  have al: "alias_of rec_self = ''mine_Base''" "alias_of rec_base = ''base_Base''"
    by code_simp+
  show ?thesis
    using h1 h2 sample_self_base self_named_base_loop [OF h1 h2, of "''pkg''"]
    by (simp add: n al)
qed

end
